theory Spec2Isabelle
  imports Complex_Main "HOL-Library.Multiset"
begin

section \<open>Python values, exceptions and slices\<close>

text \<open>
  The exceptions the modelled code can meet. All of them derive from Python's
  \<open>Exception\<close>, so an \<open>except Exception\<close> clause catches every one of them.
\<close>

datatype py_exception =
  IndexError | KeyError | TypeError | ValueError | ZeroDivisionError
  | OverflowError | RuntimeError | OSError | cv2_error

text \<open>\<open>xs[-1]\<close>: the last element, IndexError on the empty list.\<close>

definition index_last :: "'a list \<Rightarrow> py_exception + 'a" where
  "index_last xs = (case xs of [] \<Rightarrow> Inl IndexError | _ # _ \<Rightarrow> Inr (last xs))"

text \<open>\<open>xs[:n]\<close>: a negative bound counts from the end, and no bound is out of range.\<close>

definition slice_to :: "'a list \<Rightarrow> int \<Rightarrow> 'a list" where
  "slice_to xs n =
     (if n < 0 then take (nat (int (length xs) + n)) xs else take (nat n) xs)"

text \<open>\<open>list(range(n))\<close>: empty when \<open>n \<le> 0\<close>.\<close>

definition py_range :: "int \<Rightarrow> int list" where
  "py_range n = map int [0..<nat n]"

section \<open>The frame-count alignment\<close>

text \<open>
  Line 97 of \<open>load_video_and_transform\<close>:
  \<open>duration = ((len(frames) - 1) // 8) * 8 + 1\<close>. Python's \<open>//\<close> is floor
  division, which is \<open>div\<close> on \<open>int\<close>.
\<close>

definition duration :: "int \<Rightarrow> int" where
  "duration n = ((n - 1) div 8) * 8 + 1"


section \<open>The frame transform\<close>

text \<open>
  \<open>get_transform\<close> computes the resize target in Python floats: \<open>new_width / width\<close>
  is true division of two ints, \<open>max\<close> compares floats, \<open>width * scale\<close> multiplies
  an int by a float and \<open>round\<close> rounds a float to an int. The float arithmetic is a
  parameter of the model; each operation can raise where Python's does
  (\<open>ZeroDivisionError\<close>, \<open>OverflowError\<close>, \<open>ValueError\<close> on a NaN).
\<close>

record 'fl float_ops =
  truediv :: "int \<Rightarrow> int \<Rightarrow> py_exception + 'fl"
  float_gt :: "'fl \<Rightarrow> 'fl \<Rightarrow> bool"
  mul_int :: "int \<Rightarrow> 'fl \<Rightarrow> py_exception + 'fl"
  round_float :: "'fl \<Rightarrow> py_exception + int"

text \<open>\<open>max(a, b)\<close> keeps its first argument unless the second is greater.\<close>

definition py_max :: "'fl float_ops \<Rightarrow> 'fl \<Rightarrow> 'fl \<Rightarrow> 'fl" where
  "py_max fo a b = (if float_gt fo b a then b else a)"

datatype interpolation = NEAREST | BILINEAR | BICUBIC

text \<open>
  The torchvision transforms the code builds: \<open>Resize(size=(h, w), interpolation,
  antialias)\<close>, \<open>CenterCrop(size=(h, w))\<close> and \<open>Normalize(mean, std)\<close>.
\<close>

datatype transform_op =
  Resize int int interpolation bool
  | CenterCrop int int
  | Normalize "rat list" "rat list"

text \<open>
  \<open>get_transform\<close>, lines 24 to 53. \<open>new_width\<close> and \<open>new_height\<close> default to
  \<open>None\<close>; dividing \<open>None\<close> raises a TypeError.
\<close>

definition get_transform ::
  "'fl float_ops \<Rightarrow> int \<Rightarrow> int \<Rightarrow> int option \<Rightarrow> int option \<Rightarrow> bool
    \<Rightarrow> py_exception + transform_op list" where
  "get_transform fo width height new_width new_height resize =
     (let normalize = Normalize [1 / 2, 1 / 2, 1 / 2] [1 / 2, 1 / 2, 1 / 2] in
      if resize then
        (case new_width of
           None \<Rightarrow> Inl TypeError
         | Some nw \<Rightarrow>
        (case truediv fo nw width of
           Inl e \<Rightarrow> Inl e
         | Inr a \<Rightarrow>
        (case new_height of
           None \<Rightarrow> Inl TypeError
         | Some nh \<Rightarrow>
        (case truediv fo nh height of
           Inl e \<Rightarrow> Inl e
         | Inr b \<Rightarrow>
        (let scale = py_max fo a b in
        (case mul_int fo width scale of
           Inl e \<Rightarrow> Inl e
         | Inr ws \<Rightarrow>
        (case round_float fo ws of
           Inl e \<Rightarrow> Inl e
         | Inr resized_width \<Rightarrow>
        (case mul_int fo height scale of
           Inl e \<Rightarrow> Inl e
         | Inr hs \<Rightarrow>
        (case round_float fo hs of
           Inl e \<Rightarrow> Inl e
         | Inr resized_height \<Rightarrow>
             Inr [Resize resized_height resized_width BICUBIC True,
                  CenterCrop nh nw, normalize])))))))))
      else Inr [normalize])"

section \<open>Tensors\<close>

text \<open>
  A video tensor is kept as the list of its frames along the time axis, together with
  the order of its axes; \<open>permute\<close> and \<open>unsqueeze\<close> change the order of the axes only.
  The pixel data of one frame is an abstract image.
\<close>

datatype axis = Batch | Time | Channel | Height | Width

record 'img tensor =
  axes :: "axis list"
  time_frames :: "'img list"

definition permute :: "nat list \<Rightarrow> 'img tensor \<Rightarrow> 'img tensor" where
  "permute dims t = t\<lparr>axes := map (\<lambda>i. axes t ! i) dims\<rparr>"

definition unsqueeze0 :: "'img tensor \<Rightarrow> 'img tensor" where
  "unsqueeze0 t = t\<lparr>axes := Batch # axes t\<rparr>"

text \<open>Mapping a fallible function over a list stops at the first exception.\<close>

fun map_result :: "('a \<Rightarrow> py_exception + 'b) \<Rightarrow> 'a list \<Rightarrow> py_exception + 'b list" where
  "map_result f [] = Inr []"
| "map_result f (x # xs) =
     (case f x of
        Inl e \<Rightarrow> Inl e
      | Inr y \<Rightarrow> (case map_result f xs of Inl e \<Rightarrow> Inl e | Inr ys \<Rightarrow> Inr (y # ys)))"

text \<open>
  \<open>Compose\<close> applies the transforms in order to the whole tensor; each of the three
  transforms works on the last three axes, that is frame by frame.
\<close>

fun apply_transform ::
  "(transform_op \<Rightarrow> 'img \<Rightarrow> py_exception + 'img) \<Rightarrow> transform_op list \<Rightarrow> 'img list
    \<Rightarrow> py_exception + 'img list" where
  "apply_transform ap [] imgs = Inr imgs"
| "apply_transform ap (t # ts) imgs =
     (case map_result (ap t) imgs of
        Inl e \<Rightarrow> Inl e
      | Inr imgs' \<Rightarrow> apply_transform ap ts imgs')"

text \<open>
  \<open>torch.stack\<close> raises a RuntimeError on an empty list and on frames of different
  shapes. A frame's shape is (channels, height, width).
\<close>

definition torch_stack :: "('frame \<Rightarrow> int \<times> int \<times> int) \<Rightarrow> 'frame list \<Rightarrow> py_exception + 'frame list" where
  "torch_stack shape frames =
     (case frames of
        [] \<Rightarrow> Inl RuntimeError
      | f # fs \<Rightarrow> if list_all (\<lambda>g. shape g = shape f) fs then Inr frames else Inl RuntimeError)"

section \<open>Reading a video\<close>

text \<open>
  What one call of \<open>video_capture.read()\<close> does: it returns a frame (the flag is true),
  returns no frame (the flag is false), or raises.
\<close>

datatype 'raw read_event = Frame 'raw | NoFrame | ReadRaises py_exception

text \<open>
  The world \<open>load_video_and_transform\<close> runs in. \<open>VideoCapture\<close> opens a path and
  gives the outcome of each later \<open>read()\<close> by the number of reads before it, or raises;
  \<open>convert\<close> is the per-frame \<open>cvtColor\<close>, \<open>from_numpy\<close> and \<open>permute(2, 0, 1)\<close>;
  \<open>to_float\<close> is \<open>.float() / 255\<close> on one frame; \<open>apply_op\<close> is one torchvision
  transform on one frame.
\<close>

record ('raw, 'frame, 'img, 'fl) env =
  VideoCapture :: "string \<Rightarrow> py_exception + (nat \<Rightarrow> 'raw read_event)"
  convert :: "'raw \<Rightarrow> py_exception + 'frame"
  frame_shape :: "'frame \<Rightarrow> int \<times> int \<times> int"
  to_float :: "'frame \<Rightarrow> 'img"
  apply_op :: "transform_op \<Rightarrow> 'img \<Rightarrow> py_exception + 'img"
  fops :: "'fl float_ops"

text \<open>
  The \<open>while True\<close> loop of lines 73 to 87. Every iteration calls \<open>read()\<close> once and
  every iteration that goes on adds one to \<open>frame_index\<close>, so \<open>frame_index\<close> is also the
  number of reads made before. The result is the frames collected, or the exception
  raised, and the number of \<open>read()\<close> calls made when the loop ends.
\<close>

function read_loop ::
  "('raw \<Rightarrow> py_exception + 'frame) \<Rightarrow> int list \<Rightarrow> (nat \<Rightarrow> 'raw read_event) \<Rightarrow> nat
    \<Rightarrow> 'frame list \<Rightarrow> (py_exception + 'frame list) \<times> nat" where
  "read_loop conv frame_indexs src frame_index frames =
     (case src frame_index of
        NoFrame \<Rightarrow> (Inr frames, Suc frame_index)
      | ReadRaises e \<Rightarrow> (Inl e, Suc frame_index)
      | Frame raw \<Rightarrow>
          (case index_last frame_indexs of
             Inl e \<Rightarrow> (Inl e, Suc frame_index)
           | Inr m \<Rightarrow>
               if int frame_index > m then (Inr frames, Suc frame_index)
               else if int frame_index \<in> set frame_indexs then
                 (case conv raw of
                    Inl e \<Rightarrow> (Inl e, Suc frame_index)
                  | Inr f \<Rightarrow> read_loop conv frame_indexs src (Suc frame_index) (frames @ [f]))
               else read_loop conv frame_indexs src (Suc frame_index) frames))"
  by pat_completeness auto
termination
  by (relation "measure (\<lambda>(conv, frame_indexs, src, frame_index, frames).
        nat (last frame_indexs + 1 - int frame_index))")
    (auto simp: index_last_def split: list.splits)

declare read_loop.simps [simp del]

text \<open>
  A video file that decodes to the frames \<open>raws\<close>: the reads give them in order, at
  the indices 0, 1, 2 and so on, and no frame after the last.
\<close>

definition video_of :: "'raw list \<Rightarrow> nat \<Rightarrow> 'raw read_event" where
  "video_of raws = (\<lambda>i. if i < length raws then Frame (raws ! i) else NoFrame)"

text \<open>
  The decoded frames from the index \<open>k\<close> on whose index is among the requested ones,
  in the order of their indices.
\<close>

definition requested :: "'raw list \<Rightarrow> int list \<Rightarrow> nat \<Rightarrow> 'raw list" where
  "requested raws idxs k =
     map (\<lambda>i. raws ! i) (filter (\<lambda>i. int i \<in> set idxs) [k..<length raws])"

text \<open>
  What a call of \<open>load_video_and_transform\<close> leaves behind: what it returned (\<open>Inl\<close>
  would be an exception leaving the function), the exception its handler caught, whether
  \<open>video_capture\<close> was assigned, and the numbers of \<open>read()\<close> and \<open>release()\<close> calls.
\<close>

record 'img load_run =
  returned :: "py_exception + 'img tensor option"
  caught :: "py_exception option"
  opened :: bool
  reads :: nat
  releases :: nat

text \<open>Lines 90 to 109: from the collected frames to the returned tensor.\<close>

definition assemble ::
  "('raw, 'frame, 'img, 'fl) env \<Rightarrow> 'frame list \<Rightarrow> int \<Rightarrow> int option \<Rightarrow> int option \<Rightarrow> bool
    \<Rightarrow> py_exception + 'img tensor option" where
  "assemble env frames frame_number new_width new_height resize =
     (if length frames = 0 then Inr None
      else
        (let frames = slice_to frames frame_number;
             duration = duration (int (length frames));
             frames = slice_to frames duration
         in case torch_stack (frame_shape env) frames of
              Inl e \<Rightarrow> Inl e
            | Inr stacked \<Rightarrow>
                (let (channels, height, width) = frame_shape env (hd stacked);
                     floats = \<lparr>axes = [Time, Channel, Height, Width],
                               time_frames = map (to_float env) stacked\<rparr>
                 in case get_transform (fops env) width height new_width new_height resize of
                      Inl e \<Rightarrow> Inl e
                    | Inr video_transform \<Rightarrow>
                        (case apply_transform (apply_op env) video_transform (time_frames floats) of
                           Inl e \<Rightarrow> Inl e
                         | Inr imgs \<Rightarrow>
                             Inr (Some (permute [1, 0, 2, 3] (floats\<lparr>time_frames := imgs\<rparr>)))))))"

text \<open>
  What a caller passes as \<open>frame_indexs\<close>. \<open>process_one_video\<close> hands on what the
  manifest holds under \<open>frames\<close> without a check, so next to a list of ints there are
  the values \<open>set\<close> refuses: a value that is not iterable (\<open>null\<close>, a number, a
  boolean) and a list that holds an unhashable element (a list of lists). Values that
  \<open>set\<close> accepts but that are no list of ints (a string, a list of strings) are not
  modelled.
\<close>

datatype frame_indexs_arg = IntList "int list" | NotIterable | HoldsUnhashable

text \<open>
  Line 65, \<open>frame_indexes_set = set(frame_indexs)\<close>: a TypeError on the values
  \<open>set\<close> refuses. For a list of ints the set is the set of the list.
\<close>

fun py_set :: "frame_indexs_arg \<Rightarrow> py_exception + int list" where
  "py_set (IntList xs) = Inr xs"
| "py_set NotIterable = Inl TypeError"
| "py_set HoldsUnhashable = Inl TypeError"

text \<open>
  \<open>load_video_and_transform\<close>, lines 57 to 117. Line 65 is before the \<open>try\<close>: an
  exception there leaves the function. Then comes the \<open>try\<close> block with its
  \<open>except Exception\<close> handler, which releases the capture when \<open>video_capture\<close> is
  not \<open>None\<close> and returns \<open>None\<close>.
\<close>

definition load_video_and_transform ::
  "('raw, 'frame, 'img, 'fl) env \<Rightarrow> string \<Rightarrow> frame_indexs_arg \<Rightarrow> int \<Rightarrow> int option
    \<Rightarrow> int option \<Rightarrow> bool \<Rightarrow> 'img load_run" where
  "load_video_and_transform env video_path frame_indexs frame_number new_width new_height resize =
     (case py_set frame_indexs of
        Inl e \<Rightarrow>
          \<lparr>returned = Inl e, caught = None, opened = False, reads = 0, releases = 0\<rparr>
      | Inr indexs \<Rightarrow>
     (case VideoCapture env video_path of
        Inl e \<Rightarrow>
          \<lparr>returned = Inr None, caught = Some e, opened = False, reads = 0, releases = 0\<rparr>
      | Inr src \<Rightarrow>
          (case read_loop (convert env) indexs src 0 [] of
             (Inl e, n) \<Rightarrow>
               \<lparr>returned = Inr None, caught = Some e, opened = True, reads = n, releases = 1\<rparr>
           | (Inr frames, n) \<Rightarrow>
               (case assemble env frames frame_number new_width new_height resize of
                  Inl e \<Rightarrow>
                    \<lparr>returned = Inr None, caught = Some e, opened = True, reads = n,
                      releases = 2\<rparr>
                | Inr r \<Rightarrow>
                    \<lparr>returned = Inr r, caught = None, opened = True, reads = n,
                      releases = 1\<rparr>))))"

section \<open>The dataset\<close>

text \<open>
  A manifest line has the keys \<open>video\<close> and \<open>latent\<close> and may have the key
  \<open>frames\<close>.
\<close>

record manifest_entry =
  video :: string
  latent :: string
  frames :: "frame_indexs_arg option"

record dataset =
  annotation :: "manifest_entry list"
  width :: int
  height :: int
  num_frames :: int

record 'img work_item =
  item_video :: string
  item_input :: "'img tensor"
  item_output :: string

text \<open>
  \<open>VideoDataset.process_one_video\<close>, lines 144 to 179. The call of
  \<open>load_video_and_transform\<close> is inside a \<open>try\<close> whose handler prints and goes on to
  return the empty list.
\<close>

definition process_one_video ::
  "('raw, 'frame, 'img, 'fl) env \<Rightarrow> dataset \<Rightarrow> manifest_entry \<Rightarrow> 'img work_item list" where
  "process_one_video env self video_item =
     (let video_path = video video_item;
          output_latent_path = latent video_item;
          frame_indexs = (case frames video_item of
                            Some fs \<Rightarrow> fs
                          | None \<Rightarrow> IntList (py_range (num_frames self)))
      in case returned (load_video_and_transform env video_path frame_indexs (num_frames self)
                          (Some (width self)) (Some (height self)) True) of
           Inl e \<Rightarrow> []
         | Inr None \<Rightarrow> []
         | Inr (Some video_frames_tensors) \<Rightarrow>
             [\<lparr>item_video = video_path, item_input = unsqueeze0 video_frames_tensors,
               item_output = output_latent_path\<rparr>])"

text \<open>\<open>xs[i]\<close>: a negative index counts from the end; out of range raises.\<close>

definition py_index :: "'a list \<Rightarrow> int \<Rightarrow> py_exception + 'a" where
  "py_index xs i =
     (if 0 \<le> i \<and> i < int (length xs) then Inr (xs ! nat i)
      else if i < 0 \<and> - int (length xs) \<le> i then Inr (xs ! nat (int (length xs) + i))
      else Inl IndexError)"

text \<open>\<open>VideoDataset.__getitem__\<close>, lines 184 to 194.\<close>

definition getitem ::
  "('raw, 'frame, 'img, 'fl) env \<Rightarrow> dataset \<Rightarrow> int \<Rightarrow> 'img work_item list" where
  "getitem env self index =
     (case py_index (annotation self) index of
        Inl e \<Rightarrow> []
      | Inr video_item \<Rightarrow> process_one_video env self video_item)"

section \<open>The data loader\<close>

text \<open>
  \<open>torch.utils.data.DistributedSampler\<close> is library code. Its model follows the
  library's \<open>__init__\<close> and \<open>__iter__\<close> for the arguments of lines 254 to 257:
  \<open>shuffle=False\<close>, and \<open>drop_last\<close> left at its default \<open>False\<close>. The sampler
  takes \<open>num_samples = math.ceil(len / num_replicas)\<close> indices per rank (the integer
  ceiling here; the library rounds a float quotient up, which is the same number for
  every manifest that fits in memory), pads
  \<open>list(range(len))\<close> with its own first entries up to
  \<open>total_size = num_samples * num_replicas\<close>, and gives a rank the slice
  \<open>indices[rank:total_size:num_replicas]\<close>.
\<close>

definition ceil_div :: "nat \<Rightarrow> nat \<Rightarrow> nat" where
  "ceil_div a b = (a + b - 1) div b"

text \<open>\<open>xs[start:stop:step]\<close> for bounds that are not negative and a positive step.\<close>

definition slice_step :: "'a list \<Rightarrow> nat \<Rightarrow> nat \<Rightarrow> nat \<Rightarrow> 'a list" where
  "slice_step xs start stop step =
     map (\<lambda>i. xs ! i)
       (filter (\<lambda>i. (i - start) mod step = 0) [start..<min stop (length xs)])"

definition padded_indices :: "nat \<Rightarrow> nat \<Rightarrow> nat list" where
  "padded_indices len num_replicas =
     (let num_samples = ceil_div len num_replicas;
          total_size = num_samples * num_replicas;
          indices = [0..<len];
          padding_size = total_size - length indices
      in if padding_size \<le> length indices then indices @ take padding_size indices
         else indices @
           take padding_size
             (concat (replicate (ceil_div padding_size (length indices)) indices)))"

definition distributed_sampler :: "nat \<Rightarrow> int \<Rightarrow> int \<Rightarrow> py_exception + nat list" where
  "distributed_sampler len num_replicas rank =
     (if rank \<ge> num_replicas \<or> rank < 0 then Inl ValueError
      else
        (let total_size = ceil_div len (nat num_replicas) * nat num_replicas
         in Inr (slice_step (padded_indices len (nat num_replicas)) (nat rank) total_size
                   (nat num_replicas))))"

text \<open>The shard of a rank: the set of manifest indices its sampler yields.\<close>

definition shard :: "nat \<Rightarrow> nat \<Rightarrow> nat \<Rightarrow> nat set" where
  "shard len num_replicas rank =
     (case distributed_sampler len (int num_replicas) (int rank) of
        Inl e \<Rightarrow> {}
      | Inr indices \<Rightarrow> set indices)"

text \<open>\<open>collate_fn\<close>, lines 235 to 246: the inputs and the outputs of a batch, flattened.\<close>

record 'img sample =
  sample_input :: "'img tensor list"
  sample_output :: "string list"

definition collate_fn :: "'img work_item list list \<Rightarrow> 'img sample" where
  "collate_fn batch =
     \<lparr>sample_input = map item_input (concat batch),
      sample_output = map item_output (concat batch)\<rparr>"

text \<open>
  The loader's batches with \<open>drop_last=False\<close>: the sampler's indices in order, in
  groups of \<open>batch_size\<close>, the last group shorter when they do not divide.
\<close>

function batched :: "nat \<Rightarrow> 'a list \<Rightarrow> 'a list list" where
  "batched n xs = (if n = 0 \<or> xs = [] then [] else take n xs # batched n (drop n xs))"
  by pat_completeness auto
termination
  by (relation "measure (\<lambda>(n, xs). length xs)") auto

declare batched.simps [simp del]

record args =
  batch_size :: int
  world_size :: int
  rank :: int

text \<open>
  \<open>build_data_loader\<close>, lines 233 to 271, with the samples the loader then yields. The
  loader refuses a batch size that is not positive with a ValueError.
\<close>

definition build_data_loader ::
  "('raw, 'frame, 'img, 'fl) env \<Rightarrow> dataset \<Rightarrow> args \<Rightarrow> py_exception + 'img sample list" where
  "build_data_loader env ds a =
     (case distributed_sampler (length (annotation ds)) (world_size a) (rank a) of
        Inl e \<Rightarrow> Inl e
      | Inr indices \<Rightarrow>
          if batch_size a \<le> 0 then Inl ValueError
          else Inr (map (\<lambda>b. collate_fn (map (\<lambda>i. getitem env ds (int i)) b))
                      (batched (nat (batch_size a)) indices)))"

section \<open>Persistence\<close>

text \<open>
  The file system maps a path to the content of the file there. \<open>clone\<close> is
  \<open>tensor.clone()\<close>. \<open>torch_save\<close> is the library's \<open>torch.save\<close>: from the tensor,
  the path and what the path held before, it gives the exception it raises, if any, and
  what the path holds afterwards; it touches no other path.
\<close>

record ('lat, 'file) persist_env =
  clone :: "'lat \<Rightarrow> py_exception + 'lat"
  torch_save :: "'lat \<Rightarrow> string \<Rightarrow> 'file option \<Rightarrow> py_exception option \<times> 'file option"

text \<open>
  \<open>save_tensor\<close>, lines 275 to 282. \<open>Inl\<close> would be an exception leaving the function;
  the handler's \<open>pass\<close> returns \<open>None\<close>.
\<close>

definition save_tensor ::
  "('lat, 'file) persist_env \<Rightarrow> 'lat \<Rightarrow> string \<Rightarrow> (string \<Rightarrow> 'file option)
    \<Rightarrow> (py_exception + unit) \<times> (string \<Rightarrow> 'file option)" where
  "save_tensor penv t output_path fs =
     (case clone penv t of
        Inl e \<Rightarrow> (Inr (), fs)
      | Inr c \<Rightarrow>
          (case torch_save penv c output_path (fs output_path) of
             (Some e, content) \<Rightarrow> (Inr (), fs(output_path := content))
           | (None, content) \<Rightarrow> (Inr (), fs(output_path := content))))"

section \<open>The driver\<close>

text \<open>
  A future of the thread pool: the number of submissions before it, and the call of
  \<open>save_tensor\<close> it stands for.
\<close>

record 'lat future =
  fid :: nat
  task_tensor :: 'lat
  task_path :: string

text \<open>What the main thread does, in order.\<close>

datatype 'lat event =
  BarrierEv
  | EncodeEv 'lat
  | SubmitEv "'lat future"
  | ResultEv nat

record 'lat driver =
  task_queue :: "'lat future list"
  trace :: "'lat event list"

text \<open>\<open>task_queue.append(executor.submit(save_tensor, video_latent, output_path))\<close>.\<close>

definition submit :: "'lat driver \<Rightarrow> 'lat \<Rightarrow> string \<Rightarrow> 'lat driver" where
  "submit st video_latent output_path =
     (let f = \<lparr>fid = length (task_queue st), task_tensor = video_latent,
                task_path = output_path\<rparr>
      in st\<lparr>task_queue := task_queue st @ [f], trace := trace st @ [SubmitEv f]\<rparr>)"

text \<open>
  Lines 328 to 337, the loop over one sample. \<open>encode\<close> is lines 330 to 335:
  \<open>model.encode_latent\<close> and the move to the storage type and to the CPU. An exception
  there is not caught; it ends the run.
\<close>

fun encode_sample ::
  "('img tensor \<Rightarrow> py_exception + 'lat) \<Rightarrow> ('img tensor \<times> string) list \<Rightarrow> 'lat driver
    \<Rightarrow> py_exception option \<times> 'lat driver" where
  "encode_sample encode [] st = (None, st)"
| "encode_sample encode ((video_input, output_path) # rest) st =
     (case encode video_input of
        Inl e \<Rightarrow> (Some e, st)
      | Inr video_latent \<Rightarrow>
          encode_sample encode rest
            (submit (st\<lparr>trace := trace st @ [EncodeEv video_latent]\<rparr>) video_latent
               output_path))"

text \<open>Lines 321 to 337, the loop over the loader's samples.\<close>

fun encode_all ::
  "('img tensor \<Rightarrow> py_exception + 'lat) \<Rightarrow> 'img sample list \<Rightarrow> 'lat driver
    \<Rightarrow> py_exception option \<times> 'lat driver" where
  "encode_all encode [] st = (None, st)"
| "encode_all encode (s # rest) st =
     (case encode_sample encode (zip (sample_input s) (sample_output s)) st of
        (Some e, st') \<Rightarrow> (Some e, st')
      | (None, st') \<Rightarrow> encode_all encode rest st')"

text \<open>
  The threads of the pool run the submitted calls of \<open>save_tensor\<close>. \<open>finish_time\<close>
  says when the call of the future of each number ends, which the scheduler decides; the
  files are written in that order.
\<close>

definition pool_order :: "(nat \<Rightarrow> nat) \<Rightarrow> 'lat future list \<Rightarrow> 'lat future list" where
  "pool_order finish_time fs = sort_key (\<lambda>f. finish_time (fid f)) fs"

text \<open>
  \<open>futures.as_completed\<close> yields every future of the queue once: first those that have
  finished already, in the order of the set it makes of the queue, then the others as
  they finish. The program does not fix this order; \<open>yield_place\<close> gives the place of
  the future of each number in it.
\<close>

definition as_completed :: "(nat \<Rightarrow> nat) \<Rightarrow> 'lat future list \<Rightarrow> 'lat future list" where
  "as_completed yield_place fs = sort_key (\<lambda>f. yield_place (fid f)) fs"

fun run_pool ::
  "('lat, 'file) persist_env \<Rightarrow> 'lat future list \<Rightarrow> (string \<Rightarrow> 'file option)
    \<Rightarrow> (nat \<times> (py_exception + unit)) list \<times> (string \<Rightarrow> 'file option)" where
  "run_pool penv [] fs = ([], fs)"
| "run_pool penv (f # rest) fs =
     (case save_tensor penv (task_tensor f) (task_path f) fs of
        (r, fs') \<Rightarrow>
          (case run_pool penv rest fs' of
             (rs, fs'') \<Rightarrow> ((fid f, r) # rs, fs'')))"

text \<open>
  What the pool recorded for a future: the outcome of its call, under its number.
\<close>

definition future_result :: "(nat \<times> 'r) list \<Rightarrow> 'lat future \<Rightarrow> (nat \<times> 'r) list" where
  "future_result results f = filter (\<lambda>(i, r). i = fid f) results"

text \<open>
  Lines 340 and 341: \<open>future.result()\<close> returns what the call returned, or raises what
  it raised; an exception raised here is not caught.
\<close>

fun drain ::
  "(nat \<times> (py_exception + unit)) list \<Rightarrow> 'lat driver \<Rightarrow> py_exception option \<times> 'lat driver" where
  "drain [] st = (None, st)"
| "drain ((i, r) # rest) st =
     (case r of
        Inl e \<Rightarrow> (Some e, st)
      | Inr res \<Rightarrow> drain rest (st\<lparr>trace := trace st @ [ResultEv i]\<rparr>))"

record ('lat, 'file) main_run =
  raised :: "py_exception option"
  final :: "'lat driver"
  files :: "string \<Rightarrow> 'file option"

text \<open>
  \<open>main\<close>, lines 306 to 343, from the loader's samples on. The loop over
  \<open>futures.as_completed(task_queue)\<close> is inside the \<open>with\<close> block; leaving the block,
  also by an exception, waits for the pool to finish the submitted calls.
\<close>

definition main ::
  "('img tensor \<Rightarrow> py_exception + 'lat) \<Rightarrow> ('lat, 'file) persist_env \<Rightarrow> (nat \<Rightarrow> nat)
    \<Rightarrow> (nat \<Rightarrow> nat) \<Rightarrow> 'img sample list \<Rightarrow> (string \<Rightarrow> 'file option)
    \<Rightarrow> ('lat, 'file) main_run" where
  "main encode penv finish_time yield_place data_loader fs =
     (let st0 = \<lparr>task_queue = [], trace = [BarrierEv]\<rparr>
      in case encode_all encode data_loader st0 of
           (Some e, st) \<Rightarrow>
             \<lparr>raised = Some e, final = st,
              files = snd (run_pool penv (pool_order finish_time (task_queue st)) fs)\<rparr>
         | (None, st) \<Rightarrow>
             (case run_pool penv (pool_order finish_time (task_queue st)) fs of
                (results, fs') \<Rightarrow>
                  (case drain
                          (concat (map (future_result results)
                             (as_completed yield_place (task_queue st)))) st of
                     (Some e, st') \<Rightarrow> \<lparr>raised = Some e, final = st', files = fs'\<rparr>
                   | (None, st') \<Rightarrow>
                       \<lparr>raised = None, final = st'\<lparr>trace := trace st' @ [BarrierEv]\<rparr>,
                        files = fs'\<rparr>)))"

text \<open>
  The two events each future of a queue stands for, in the order of the queue, and the
  pairs of input tensor and output path the loop of lines 321 to 337 meets, in order.
\<close>

definition encode_submit_events :: "'lat future list \<Rightarrow> 'lat event list" where
  "encode_submit_events q = concat (map (\<lambda>f. [EncodeEv (task_tensor f), SubmitEv f]) q)"

definition work_items :: "'img sample list \<Rightarrow> ('img tensor \<times> string) list" where
  "work_items data_loader =
     concat (map (\<lambda>s. zip (sample_input s) (sample_output s)) data_loader)"

section \<open>A sample world\<close>

text \<open>
  A world to evaluate the model in: every path holds a video of thirty frames, a frame is
  its index, no library call raises, and the float arithmetic is trivial.
\<close>

definition example_video :: "nat \<Rightarrow> nat read_event" where
  "example_video = video_of [0..<30]"

definition example_env :: "(nat, nat, nat, unit) env" where
  "example_env =
     \<lparr>VideoCapture = (\<lambda>p. Inr example_video),
      convert = Inr, frame_shape = (\<lambda>f. (3, 4, 4)), to_float = id,
      apply_op = (\<lambda>t. Inr),
      fops = \<lparr>truediv = (\<lambda>a b. Inr ()), float_gt = (\<lambda>a b. False),
               mul_int = (\<lambda>a b. Inr ()), round_float = (\<lambda>a. Inr 0)\<rparr>\<rparr>"


text \<open>
  A world for persistence: a tensor is a number, \<open>clone\<close> fails on the tensor 0, and
  \<open>torch.save\<close> fails on the path \<open>readonly.pt\<close>, leaving it as it was.
\<close>

definition example_penv :: "(nat, nat) persist_env" where
  "example_penv =
     \<lparr>clone = (\<lambda>t. if t = 0 then Inl RuntimeError else Inr t),
      torch_save = (\<lambda>t p old. if p = ''readonly.pt'' then (Some OSError, old) else (None, Some t))\<rparr>"

text \<open>
  A driver run to evaluate: the encoder gives a tensor's number of frames as its latent
  and fails on a tensor without frames; the loader yields two samples with three videos.
\<close>

definition example_encode :: "nat tensor \<Rightarrow> py_exception + nat" where
  "example_encode t =
     (if time_frames t = [] then Inl RuntimeError else Inr (length (time_frames t)))"

definition example_input :: "nat \<Rightarrow> nat tensor" where
  "example_input k = \<lparr>axes = [Batch, Channel, Time, Height, Width], time_frames = [0..<k]\<rparr>"

definition example_loader :: "nat sample list" where
  "example_loader =
     [\<lparr>sample_input = [example_input 1, example_input 9],
       sample_output = [''a.pt'', ''b.pt'']\<rparr>,
      \<lparr>sample_input = [example_input 17], sample_output = [''c.pt'']\<rparr>]"

section \<open>Properties of the alignment\<close>

text \<open>
  Claim C2. For every frame count \<open>F \<ge> 1\<close> the aligned count is
  \<open>((F - 1) // 8) * 8 + 1\<close>; it is at most \<open>F\<close>, congruent to 1 modulo 8, of the
  form \<open>k * 8 + 1\<close> with \<open>k \<ge> 0\<close>, and no larger number of that form is at most \<open>F\<close>.
\<close>

theorem duration_largest_aligned:
  assumes "1 \<le> F"
  shows "duration F = ((F - 1) div 8) * 8 + 1
    \<and> duration F \<le> F
    \<and> duration F mod 8 = 1
    \<and> (\<exists>k\<ge>0. duration F = k * 8 + 1)
    \<and> (\<forall>k\<ge>0. k * 8 + 1 \<le> F \<longrightarrow> k * 8 + 1 \<le> duration F)"
proof -
  have formula: "duration F = ((F - 1) div 8) * 8 + 1"
    by (simp add: duration_def)
  have below: "duration F \<le> F"
    unfolding duration_def by presburger
  have residue: "duration F mod 8 = 1"
    unfolding duration_def by presburger
  have "0 \<le> (F - 1) div 8"
    using assms by simp
  then have shape: "\<exists>k\<ge>0. duration F = k * 8 + 1"
    unfolding duration_def by blast
  have largest: "\<forall>k\<ge>0. k * 8 + 1 \<le> F \<longrightarrow> k * 8 + 1 \<le> duration F"
    unfolding duration_def by presburger
  from formula below residue shape largest show ?thesis
    by blast
qed

theorem duration_largest_aligned_witness:
  "(1::int) \<le> 30 \<and> duration 30 = 25 \<and> duration 30 \<le> 30 \<and> duration 30 mod 8 = 1"
  using duration_largest_aligned [of 30] by simp

section \<open>Cap, then align\<close>










section \<open>The layout of the returned tensor\<close>

text \<open>
  \<open>torch.stack\<close> puts the time axis first and \<open>permute(1, 0, 2, 3)\<close> swaps it with
  the channels: a returned tensor has the axes channels, time, height, width.
\<close>

lemma assemble_layout:
  "assemble env collected N nw nh rs = Inr (Some t) \<Longrightarrow> axes t = [Channel, Time, Height, Width]"
  by (auto simp: assemble_def Let_def permute_def split: if_splits sum.splits prod.splits)

lemma returned_tensor_layout:
  "returned (load_video_and_transform env video_path frame_indexs N nw nh rs) = Inr (Some t)
   \<Longrightarrow> axes t = [Channel, Time, Height, Width]"
  by (auto simp: load_video_and_transform_def
      split: sum.splits prod.splits dest: assemble_layout)

section \<open>The frames the loop collects\<close>

lemma increasing_le_last:
  "sorted_wrt (<) (xs :: int list) \<Longrightarrow> x \<in> set xs \<Longrightarrow> x \<le> last xs"
  by (induction xs) (auto simp: less_imp_le)

lemma requested_past_end: "length raws \<le> k \<Longrightarrow> requested raws idxs k = []"
  by (simp add: requested_def)

lemma requested_step:
  "k < length raws \<Longrightarrow> requested raws idxs k =
     (if int k \<in> set idxs then raws ! k # requested raws idxs (Suc k)
      else requested raws idxs (Suc k))"
  by (simp add: requested_def upt_conv_Cons)

lemma requested_past_last:
  assumes "\<forall>x\<in>set idxs. x \<le> m" and "m < int k"
  shows "requested raws idxs k = []"
proof -
  have "filter (\<lambda>i. int i \<in> set idxs) [k..<length raws] = []"
    using assms by (auto simp: filter_empty_conv)
  then show ?thesis by (simp add: requested_def)
qed

lemma read_loop_collects:
  assumes ne: "idxs \<noteq> []" and top: "\<forall>x\<in>set idxs. x \<le> last idxs"
  shows "fst (read_loop conv idxs (video_of raws) k acc) =
     (case map_result conv (requested raws idxs k) of
        Inl e \<Rightarrow> Inl e
      | Inr fs \<Rightarrow> Inr (acc @ fs))"
  using ne top
proof (induction conv idxs "video_of raws" k acc rule: read_loop.induct)
  case (1 conv idxs k acc)
  have last: "index_last idxs = Inr (last idxs)"
    using "1.prems"(1) by (cases idxs) (auto simp: index_last_def)
  show ?case
  proof (cases "k < length raws")
    case False
    then show ?thesis
      by (subst read_loop.simps) (simp add: video_of_def requested_past_end)
  next
    case inside: True
    then have src: "video_of raws k = Frame (raws ! k)"
      by (simp add: video_of_def)
    show ?thesis
    proof (cases "int k > last idxs")
      case True
      then show ?thesis
        using "1.prems"(2) 
        by (subst read_loop.simps) (simp add: src last requested_past_last)
    next
      case below: False
      show ?thesis
      proof (cases "int k \<in> set idxs")
        case wanted: True
        show ?thesis
        proof (cases "conv (raws ! k)")
          case (Inl e)
          then show ?thesis
            using inside wanted below
            by (subst read_loop.simps) (simp add: src last requested_step)
        next
          case (Inr f)
          have "fst (read_loop conv idxs (video_of raws) (Suc k) (acc @ [f])) =
            (case map_result conv (requested raws idxs (Suc k)) of
               Inl e \<Rightarrow> Inl e
             | Inr fs \<Rightarrow> Inr ((acc @ [f]) @ fs))"
            using "1.hyps"(1) [OF src last _ wanted Inr] below "1.prems" by simp
          then show ?thesis
            using inside wanted below Inr
            by (subst read_loop.simps)
              (simp add: src last requested_step split: sum.splits)
        qed
      next
        case unwanted: False
        have "fst (read_loop conv idxs (video_of raws) (Suc k) acc) =
            (case map_result conv (requested raws idxs (Suc k)) of
               Inl e \<Rightarrow> Inl e
             | Inr fs \<Rightarrow> Inr (acc @ fs))"
          using "1.hyps"(2) [OF src last _ unwanted] below "1.prems" by simp
        then show ?thesis
          using inside unwanted below
          by (subst read_loop.simps) (simp add: src last requested_step)
      qed
    qed
  qed
qed


lemma read_loop_reads_last:
  "snd (read_loop conv idxs src k acc) \<le> max (Suc k) (nat (last idxs + 1) + 1)"
proof (induction conv idxs src k acc rule: read_loop.induct)
  case (1 conv idxs src k acc)
  show ?case
  proof (cases "src k")
    case NoFrame
    then show ?thesis by (subst read_loop.simps) simp
  next
    case (ReadRaises e)
    then show ?thesis by (subst read_loop.simps) simp
  next
    case (Frame raw)
    show ?thesis
    proof (cases "index_last idxs")
      case (Inl e)
      then show ?thesis using Frame by (subst read_loop.simps) simp
    next
      case (Inr m)
      then have m: "m = last idxs"
        by (auto simp: index_last_def split: list.splits)
      show ?thesis
      proof (cases "int k > m")
        case True
        then show ?thesis using Frame Inr by (subst read_loop.simps) simp
      next
        case below: False
        then have step: "max (Suc (Suc k)) (nat (last idxs + 1) + 1) = nat (last idxs + 1) + 1"
          using m by auto
        show ?thesis
        proof (cases "int k \<in> set idxs")
          case wanted: True
          show ?thesis
          proof (cases "conv raw")
            case (Inl e)
            then show ?thesis
              using Frame Inr below wanted by (subst read_loop.simps) simp
          next
            case f: (Inr f)
            from "1.IH"(1) [OF Frame Inr _ wanted f] below step show ?thesis
              using Frame Inr wanted f by (subst read_loop.simps) simp
          qed
        next
          case unwanted: False
          from "1.IH"(2) [OF Frame Inr _ unwanted] below step show ?thesis
            using Frame Inr unwanted by (subst read_loop.simps) simp
        qed
      qed
    qed
  qed
qed

lemma read_loop_reads_length:
  "snd (read_loop conv idxs (video_of raws) k acc) \<le> max (Suc k) (Suc (length raws))"
proof (induction conv idxs "video_of raws" k acc rule: read_loop.induct)
  case (1 conv idxs k acc)
  show ?case
  proof (cases "k < length raws")
    case False
    then show ?thesis
      by (subst read_loop.simps) (simp add: video_of_def)
  next
    case inside: True
    then have src: "video_of raws k = Frame (raws ! k)"
      by (simp add: video_of_def)
    from inside have step: "max (Suc (Suc k)) (Suc (length raws)) = Suc (length raws)"
      by auto
    show ?thesis
    proof (cases "index_last idxs")
      case (Inl e)
      then show ?thesis using src by (subst read_loop.simps) simp
    next
      case (Inr m)
      show ?thesis
      proof (cases "int k > m")
        case True
        then show ?thesis using src Inr by (subst read_loop.simps) simp
      next
        case below: False
        show ?thesis
        proof (cases "int k \<in> set idxs")
          case wanted: True
          show ?thesis
          proof (cases "conv (raws ! k)")
            case (Inl e)
            then show ?thesis
              using src Inr below wanted by (subst read_loop.simps) simp
          next
            case f: (Inr f)
            from "1.hyps"(1) [OF src Inr _ wanted f] below step show ?thesis
              using src Inr wanted f by (subst read_loop.simps) simp
          qed
        next
          case unwanted: False
          from "1.hyps"(2) [OF src Inr _ unwanted] below step show ?thesis
            using src Inr unwanted by (subst read_loop.simps) simp
        qed
      qed
    qed
  qed
qed

lemma load_reads:
  "VideoCapture env video_path = Inr src \<Longrightarrow>
   reads (load_video_and_transform env video_path (IntList idxs) N nw nh rs)
     = snd (read_loop (convert env) idxs src 0 [])"
  by (cases "read_loop (convert env) idxs src 0 []")
    (simp add: load_video_and_transform_def split: sum.splits)

text \<open>
  Claim C7. For every video whose decodable frames have the indices 0, 1, 2 and so on, and
  every non-empty strictly increasing sequence of requested indices, the loop collects
  exactly the decoded frames whose index is requested, each once and in the order of the
  indices (the conversion of each may raise, which ends the loop with that exception);
  every collected index is at most the last requested one, and the loop makes at most
  one read beyond the frame at the last requested index, so it reads at most
  \<open>frame_indexs[-1] + 2\<close> times. What \<open>load_video_and_transform\<close> returns is
  assembled from exactly these frames.
\<close>

theorem read_loop_collects_requested:
  assumes nonempty: "frame_indexs \<noteq> []"
    and increasing: "sorted_wrt (<) frame_indexs"
  shows "fst (read_loop (convert env) frame_indexs (video_of raws) 0 [])
      = map_result (convert env)
          (map (\<lambda>i. raws ! i)
             (filter (\<lambda>i. int i \<in> set frame_indexs) [0..<length raws]))
    \<and> (\<forall>i \<in> set (filter (\<lambda>i. int i \<in> set frame_indexs) [0..<length raws]).
          int i \<le> last frame_indexs)
    \<and> snd (read_loop (convert env) frame_indexs (video_of raws) 0 [])
        \<le> nat (last frame_indexs + 1) + 1
    \<and> snd (read_loop (convert env) frame_indexs (video_of raws) 0 []) \<le> length raws + 1
    \<and> (VideoCapture env video_path = Inr (video_of raws) \<longrightarrow>
         reads (load_video_and_transform env video_path (IntList frame_indexs) N nw nh rs)
           \<le> nat (last frame_indexs + 1) + 1)
    \<and> (VideoCapture env video_path = Inr (video_of raws) \<longrightarrow>
         (\<forall>collected.
            map_result (convert env)
              (map (\<lambda>i. raws ! i)
                 (filter (\<lambda>i. int i \<in> set frame_indexs) [0..<length raws]))
              = Inr collected
            \<longrightarrow> returned
                  (load_video_and_transform env video_path (IntList frame_indexs) N nw nh rs)
                = (case assemble env collected N nw nh rs of
                     Inl e \<Rightarrow> Inr None
                   | Inr r \<Rightarrow> Inr r)))"
proof -
  have top: "\<forall>x\<in>set frame_indexs. x \<le> last frame_indexs"
    using increasing by (blast intro: increasing_le_last)
  have "fst (read_loop (convert env) frame_indexs (video_of raws) 0 []) =
     (case map_result (convert env) (requested raws frame_indexs 0) of
        Inl e \<Rightarrow> Inl e
      | Inr fs \<Rightarrow> Inr ([] @ fs))"
    using nonempty top by (rule read_loop_collects)
  then have collected: "fst (read_loop (convert env) frame_indexs (video_of raws) 0 [])
      = map_result (convert env)
          (map (\<lambda>i. raws ! i)
             (filter (\<lambda>i. int i \<in> set frame_indexs) [0..<length raws]))"
    by (simp add: requested_def split: sum.splits)
  have prefix: "\<forall>i \<in> set (filter (\<lambda>i. int i \<in> set frame_indexs) [0..<length raws]).
          int i \<le> last frame_indexs"
    using top by simp
  have r1: "snd (read_loop (convert env) frame_indexs (video_of raws) 0 [])
        \<le> nat (last frame_indexs + 1) + 1"
    using read_loop_reads_last [of "convert env" frame_indexs "video_of raws" 0 "[]"] by simp
  have r2: "snd (read_loop (convert env) frame_indexs (video_of raws) 0 []) \<le> length raws + 1"
    using read_loop_reads_length [of "convert env" frame_indexs raws 0 "[]"] by simp
  have r3: "VideoCapture env video_path = Inr (video_of raws) \<longrightarrow>
         reads (load_video_and_transform env video_path (IntList frame_indexs) N nw nh rs)
           \<le> nat (last frame_indexs + 1) + 1"
    using r1 by (simp add: load_reads)
  have r4: "VideoCapture env video_path = Inr (video_of raws) \<longrightarrow>
         (\<forall>collected.
            map_result (convert env)
              (map (\<lambda>i. raws ! i)
                 (filter (\<lambda>i. int i \<in> set frame_indexs) [0..<length raws]))
              = Inr collected
            \<longrightarrow> returned
                  (load_video_and_transform env video_path (IntList frame_indexs) N nw nh rs)
                = (case assemble env collected N nw nh rs of
                     Inl e \<Rightarrow> Inr None
                   | Inr r \<Rightarrow> Inr r))"
  proof (intro impI allI)
    fix frames_read
    assume cap: "VideoCapture env video_path = Inr (video_of raws)"
      and conv: "map_result (convert env)
              (map (\<lambda>i. raws ! i)
                 (filter (\<lambda>i. int i \<in> set frame_indexs) [0..<length raws]))
              = Inr frames_read"
    obtain n where "read_loop (convert env) frame_indexs (video_of raws) 0 []
        = (Inr frames_read, n)"
      using collected conv
      by (cases "read_loop (convert env) frame_indexs (video_of raws) 0 []") simp
    with cap show "returned
          (load_video_and_transform env video_path (IntList frame_indexs) N nw nh rs)
        = (case assemble env frames_read N nw nh rs of
             Inl e \<Rightarrow> Inr None
           | Inr r \<Rightarrow> Inr r)"
      by (simp add: load_video_and_transform_def split: sum.splits)
  qed
  show ?thesis
    by (intro conjI) (rule collected, rule prefix, rule r1, rule r2, rule r3, rule r4)
qed

theorem read_loop_collects_requested_witness:
  "[2, 3, 7] \<noteq> ([] :: int list) \<and> sorted_wrt (<) [2, 3, 7 :: int]
   \<and> read_loop (convert example_env) [2, 3, 7] (video_of [0..<30]) 0 [] = (Inr [2, 3, 7], 9)
   \<and> map_result (convert example_env)
         (map (\<lambda>i. [0..<30] ! i) (filter (\<lambda>i. int i \<in> set [2, 3, 7]) [0..<length [0..<30]]))
       = Inr [2, 3, 7]
   \<and> (9 :: nat) \<le> nat (last [2, 3, 7] + 1) + 1"
proof -
  have ne: "[2, 3, 7] \<noteq> ([] :: int list)"
    by simp
  have inc: "sorted_wrt (<) [2, 3, 7 :: int]"
    by simp
  have run: "read_loop (convert example_env) [2, 3, 7] (video_of [0..<30]) 0 []
      = (Inr [2, 3, 7], 9)"
    by code_simp
  from read_loop_collects_requested [OF ne inc, of example_env "[0..<30]"] run
  have "map_result (convert example_env)
         (map (\<lambda>i. [0..<30] ! i) (filter (\<lambda>i. int i \<in> set [2, 3, 7]) [0..<length [0..<30]]))
       = Inr [2, 3, 7]"
    and "(9 :: nat) \<le> nat (last [2, 3, 7] + 1) + 1"
    by simp_all
  with ne inc run show ?thesis
    by blast
qed

section \<open>Exceptions and the loader\<close>

lemma read_loop_no_indices:
  "read_loop conv [] src 0 [] =
     (case src 0 of
        NoFrame \<Rightarrow> (Inr [], Suc 0)
      | ReadRaises e \<Rightarrow> (Inl e, Suc 0)
      | Frame raw \<Rightarrow> (Inl IndexError, Suc 0))"
  by (subst read_loop.simps) (simp add: index_last_def split: read_event.splits)

lemma assemble_no_frames: "assemble env [] N nw nh rs = Inr None"
  by (simp add: assemble_def)






section \<open>An empty list of requested frames\<close>

text \<open>
  Claim C10. With an empty \<open>frames\<close> list \<open>load_video_and_transform\<close> returns
  \<open>None\<close> in every world. When the first read gives a frame, \<open>frame_indexs[-1]\<close>
  raises the IndexError inside the \<open>try\<close> block and the handler catches it; when the
  first read gives no frame, the loop ends before the lookup and the empty result is
  \<open>None\<close>. Either way the entry yields no work item; so does an entry without a
  \<open>frames\<close> key when the frame budget is not positive.
\<close>

theorem empty_frames_list_absent:
  "returned (load_video_and_transform env video_path (IntList []) N nw nh rs) = Inr None
   \<and> (\<forall>src raw. VideoCapture env video_path = Inr src \<and> src 0 = Frame raw
         \<longrightarrow> load_video_and_transform env video_path (IntList []) N nw nh rs
               = \<lparr>returned = Inr None, caught = Some IndexError, opened = True, reads = 1,
                  releases = 1\<rparr>)
   \<and> (\<forall>src. VideoCapture env video_path = Inr src \<and> src 0 = NoFrame
         \<longrightarrow> load_video_and_transform env video_path (IntList []) N nw nh rs
               = \<lparr>returned = Inr None, caught = None, opened = True, reads = 1,
                  releases = 1\<rparr>)
   \<and> (frames video_item = Some (IntList []) \<longrightarrow> process_one_video env self video_item = [])
   \<and> (frames video_item = None \<and> num_frames self \<le> 0
         \<longrightarrow> process_one_video env self video_item = [])"
proof -
  have absent: "returned (load_video_and_transform env p (IntList []) M w h r) = Inr None"
    for p M w h r
    by (simp add: load_video_and_transform_def read_loop_no_indices assemble_no_frames
        split: sum.splits read_event.splits)
  have index_error: "\<forall>src raw. VideoCapture env video_path = Inr src \<and> src 0 = Frame raw
         \<longrightarrow> load_video_and_transform env video_path (IntList []) N nw nh rs
               = \<lparr>returned = Inr None, caught = Some IndexError, opened = True, reads = 1,
                  releases = 1\<rparr>"
    by (simp add: load_video_and_transform_def read_loop_no_indices)
  have no_frame: "\<forall>src. VideoCapture env video_path = Inr src \<and> src 0 = NoFrame
         \<longrightarrow> load_video_and_transform env video_path (IntList []) N nw nh rs
               = \<lparr>returned = Inr None, caught = None, opened = True, reads = 1,
                  releases = 1\<rparr>"
    by (simp add: load_video_and_transform_def read_loop_no_indices assemble_no_frames)
  have listed: "frames video_item = Some (IntList []) \<longrightarrow> process_one_video env self video_item = []"
    by (simp add: process_one_video_def Let_def absent)
  have defaulted: "frames video_item = None \<and> num_frames self \<le> 0
         \<longrightarrow> process_one_video env self video_item = []"
    by (simp add: process_one_video_def Let_def py_range_def absent)
  from absent index_error no_frame listed defaulted show ?thesis
    by blast
qed

theorem empty_frames_list_absent_witness:
  "load_video_and_transform example_env ''a.mp4'' (IntList []) 121 (Some 640) (Some 384) True
     = \<lparr>returned = Inr None, caught = Some IndexError, opened = True, reads = 1, releases = 1\<rparr>
   \<and> process_one_video example_env
       \<lparr>annotation = [], width = 640, height = 384, num_frames = 121\<rparr>
       \<lparr>video = ''a.mp4'', latent = ''a.pt'', frames = Some (IntList [])\<rparr> = []"
proof -
  have o: "VideoCapture example_env ''a.mp4'' = Inr example_video \<and> example_video 0 = Frame 0"
    by (simp add: example_env_def example_video_def video_of_def)
  have l: "frames \<lparr>video = ''a.mp4'', latent = ''a.pt'', frames = Some (IntList [])\<rparr> = Some (IntList [])"
    by simp
  from empty_frames_list_absent [of example_env "''a.mp4''" 121 "Some 640" "Some 384" True
      "\<lparr>video = ''a.mp4'', latent = ''a.pt'', frames = Some (IntList [])\<rparr>"
      "\<lparr>annotation = [], width = 640, height = 384, num_frames = 121\<rparr>"] o l
  show ?thesis
    by blast
qed

section \<open>Persistence failures are swallowed\<close>

lemma save_tensor_returns: "fst (save_tensor penv t output_path fs) = Inr ()"
  by (simp add: save_tensor_def split: sum.splits prod.splits option.splits)

lemma save_tensor_elsewhere:
  "p \<noteq> output_path \<Longrightarrow> snd (save_tensor penv t output_path fs) p = fs p"
  by (simp add: save_tensor_def split: sum.splits prod.splits option.splits)

lemma run_pool_results:
  "list_all (\<lambda>(i, r). r = Inr ()) (fst (run_pool penv tasks fs))"
proof (induction tasks arbitrary: fs)
  case Nil
  then show ?case by simp
next
  case (Cons f rest)
  obtain r fs' where s: "save_tensor penv (task_tensor f) (task_path f) fs = (r, fs')"
    by (cases "save_tensor penv (task_tensor f) (task_path f) fs")
  then have r: "r = Inr ()"
    using save_tensor_returns [of penv "task_tensor f" "task_path f" fs] by simp
  obtain rs fs'' where p: "run_pool penv rest fs' = (rs, fs'')"
    by (cases "run_pool penv rest fs'")
  from Cons.IH [of fs'] p have "list_all (\<lambda>(i, r). r = Inr ()) rs"
    by simp
  with s r p show ?case by simp
qed

lemma run_pool_ids: "map fst (fst (run_pool penv tasks fs)) = map fid tasks"
proof (induction tasks arbitrary: fs)
  case Nil
  then show ?case by simp
next
  case (Cons f rest)
  obtain r fs' where s: "save_tensor penv (task_tensor f) (task_path f) fs = (r, fs')"
    by (cases "save_tensor penv (task_tensor f) (task_path f) fs")
  obtain rs fs'' where p: "run_pool penv rest fs' = (rs, fs'')"
    by (cases "run_pool penv rest fs'")
  from Cons.IH [of fs'] p have "map fst rs = map fid rest"
    by simp
  with s p show ?case by simp
qed

lemma run_pool_elsewhere:
  "p \<notin> task_path ` set tasks \<Longrightarrow> snd (run_pool penv tasks fs) p = fs p"
proof (induction tasks arbitrary: fs)
  case Nil
  then show ?case by simp
next
  case (Cons f rest)
  obtain r fs' where s: "save_tensor penv (task_tensor f) (task_path f) fs = (r, fs')"
    by (cases "save_tensor penv (task_tensor f) (task_path f) fs")
  from Cons.prems have "p \<noteq> task_path f" and rest: "p \<notin> task_path ` set rest"
    by auto
  then have "fs' p = fs p"
    using save_tensor_elsewhere [of p "task_path f" penv "task_tensor f" fs] s by simp
  moreover obtain rs fs'' where p: "run_pool penv rest fs' = (rs, fs'')"
    by (cases "run_pool penv rest fs'")
  moreover have "snd (run_pool penv rest fs') p = fs' p"
    using Cons.IH [OF rest] .
  ultimately show ?case
    using s by simp
qed

text \<open>
  Claim C8. For every tensor and destination path \<open>save_tensor\<close> returns without
  raising: an exception of \<open>clone\<close> or of \<open>torch.save\<close> is caught and dropped. It
  changes no file but the one at its own path, so every call the pool runs returns
  normally and a failure costs only that one output file.
\<close>

theorem save_tensor_never_raises:
  "fst (save_tensor penv t output_path fs) = Inr ()
   \<and> (\<forall>p. p \<noteq> output_path \<longrightarrow> snd (save_tensor penv t output_path fs) p = fs p)
   \<and> list_all (\<lambda>(i, r). r = Inr ()) (fst (run_pool penv tasks fs))
   \<and> (\<forall>p. p \<notin> task_path ` set tasks \<longrightarrow> snd (run_pool penv tasks fs) p = fs p)"
  using save_tensor_returns [of penv t output_path fs]
    save_tensor_elsewhere [of _ output_path penv t fs]
    run_pool_results [of penv tasks fs] run_pool_elsewhere [of _ tasks penv fs]
  by blast

theorem save_tensor_never_raises_witness:
  "fst (save_tensor example_penv 7 ''readonly.pt'' (Map.empty(''a.pt'' \<mapsto> 5))) = Inr ()
   \<and> snd (save_tensor example_penv 7 ''readonly.pt'' (Map.empty(''a.pt'' \<mapsto> 5))) ''a.pt''
       = Some 5
   \<and> snd (save_tensor example_penv 7 ''readonly.pt'' (Map.empty(''a.pt'' \<mapsto> 5)))
         ''readonly.pt'' = None
   \<and> snd (save_tensor example_penv 7 ''b.pt'' (Map.empty(''a.pt'' \<mapsto> 5))) ''b.pt'' = Some 7"
proof -
  have ne: "''a.pt'' \<noteq> ''readonly.pt''"
    by simp
  from save_tensor_never_raises [of example_penv 7 "''readonly.pt''"
      "Map.empty(''a.pt'' \<mapsto> 5)" "[]"] ne
  have "fst (save_tensor example_penv 7 ''readonly.pt'' (Map.empty(''a.pt'' \<mapsto> 5))) = Inr ()"
    and "snd (save_tensor example_penv 7 ''readonly.pt'' (Map.empty(''a.pt'' \<mapsto> 5))) ''a.pt''
       = Some 5"
    by simp_all
  moreover have "snd (save_tensor example_penv 7 ''readonly.pt'' (Map.empty(''a.pt'' \<mapsto> 5)))
         ''readonly.pt'' = None"
    by (simp add: save_tensor_def example_penv_def)
  moreover have "snd (save_tensor example_penv 7 ''b.pt'' (Map.empty(''a.pt'' \<mapsto> 5))) ''b.pt''
      = Some 7"
    by (simp add: save_tensor_def example_penv_def)
  ultimately show ?thesis
    by blast
qed

section \<open>Every latent is submitted once and drained\<close>

lemma encode_submit_events_append:
  "encode_submit_events (xs @ ys) = encode_submit_events xs @ encode_submit_events ys"
  by (simp add: encode_submit_events_def)

lemma encode_sample_append:
  "encode_sample encode (xs @ ys) st =
     (case encode_sample encode xs st of
        (Some e, st') \<Rightarrow> (Some e, st')
      | (None, st') \<Rightarrow> encode_sample encode ys st')"
  by (induction xs arbitrary: st) (auto split: sum.splits prod.splits option.splits)

lemma encode_all_flat:
  "encode_all encode data_loader st = encode_sample encode (work_items data_loader) st"
proof (induction data_loader arbitrary: st)
  case Nil
  then show ?case by (simp add: work_items_def)
next
  case (Cons s rest)
  have split: "work_items (s # rest) = zip (sample_input s) (sample_output s) @ work_items rest"
    by (simp add: work_items_def)
  show ?case
    unfolding split encode_sample_append
    by (simp add: Cons.IH split: prod.splits option.splits)
qed

lemma encode_sample_spec:
  "encode_sample encode items st = (e, st') \<Longrightarrow>
   \<exists>new. task_queue st' = task_queue st @ new
     \<and> trace st' = trace st @ encode_submit_events new
     \<and> map fid new = [length (task_queue st)..<length (task_queue st) + length new]
     \<and> length new \<le> length items
     \<and> map (\<lambda>f. (Inr (task_tensor f), task_path f)) new
         = map (\<lambda>(v, p). (encode v, p)) (take (length new) items)
     \<and> (e = None \<longrightarrow> length new = length items)
     \<and> (\<forall>x. e = Some x \<longrightarrow> length new < length items
            \<and> encode (fst (items ! length new)) = Inl x)"
proof (induction items arbitrary: st)
  case Nil
  then have "e = None" "st' = st" by simp_all
  then show ?case
    by (intro exI [of _ "[]"]) (simp add: encode_submit_events_def)
next
  case (Cons item rest)
  obtain v p where item: "item = (v, p)" by (cases item)
  show ?case
  proof (cases "encode v")
    case (Inl x)
    with Cons.prems item have "e = Some x" "st' = st" by simp_all
    then show ?thesis
      using Inl item by (intro exI [of _ "[]"]) (simp add: encode_submit_events_def)
  next
    case (Inr lat)
    define f where "f = \<lparr>fid = length (task_queue st), task_tensor = lat, task_path = p\<rparr>"
    define st1 where "st1 = submit (st\<lparr>trace := trace st @ [EncodeEv lat]\<rparr>) lat p"
    have q1: "task_queue st1 = task_queue st @ [f]"
      by (simp add: st1_def submit_def f_def Let_def)
    have t1: "trace st1 = trace st @ encode_submit_events [f]"
      by (simp add: st1_def submit_def f_def Let_def encode_submit_events_def)
    from Cons.prems item Inr have "encode_sample encode rest st1 = (e, st')"
      by (simp add: st1_def)
    from Cons.IH [OF this] obtain new where
      q: "task_queue st' = task_queue st1 @ new"
      and t: "trace st' = trace st1 @ encode_submit_events new"
      and ids: "map fid new = [length (task_queue st1)..<length (task_queue st1) + length new]"
      and len: "length new \<le> length rest"
      and lat: "map (\<lambda>f. (Inr (task_tensor f), task_path f)) new
         = map (\<lambda>(v, p). (encode v, p)) (take (length new) rest)"
      and complete: "e = None \<longrightarrow> length new = length rest"
      and failed: "\<forall>x. e = Some x \<longrightarrow> length new < length rest
            \<and> encode (fst (rest ! length new)) = Inl x"
      by blast
    have "map fid new
        = [Suc (length (task_queue st))..<Suc (length (task_queue st) + length new)]"
      using ids by (simp add: q1 del: upt_Suc)
    then have "map fid (f # new)
        = length (task_queue st)
          # [Suc (length (task_queue st))..<Suc (length (task_queue st) + length new)]"
      by (simp add: f_def del: upt_Suc)
    also have "\<dots> = [length (task_queue st)..<Suc (length (task_queue st) + length new)]"
      by (rule upt_conv_Cons [symmetric]) simp
    finally have ids': "map fid (f # new)
        = [length (task_queue st)..<length (task_queue st) + length (f # new)]"
      by (simp del: upt_Suc)
    have lat': "map (\<lambda>f. (Inr (task_tensor f), task_path f)) (f # new)
         = map (\<lambda>(v, p). (encode v, p)) (take (length (f # new)) (item # rest))"
      using lat by (simp add: item Inr f_def)
    show ?thesis
      using q t ids' len lat' complete failed
      by (intro exI [of _ "f # new"])
        (simp add: q1 t1 encode_submit_events_append [symmetric] del: upt_Suc)
  qed
qed

lemma drain_all:
  "list_all (\<lambda>(i, r). r = Inr ()) results \<Longrightarrow>
   drain results st = (None, st\<lparr>trace := trace st @ map (\<lambda>(i, r). ResultEv i) results\<rparr>)"
  by (induction results arbitrary: st) auto

lemma mset_as_completed: "mset (as_completed yield_place q) = mset q"
  by (simp add: as_completed_def)

lemma run_pool_all_return:
  "fst (run_pool penv tasks fs) = map (\<lambda>f. (fid f, Inr ())) tasks"
proof (induction tasks arbitrary: fs)
  case Nil
  then show ?case by simp
next
  case (Cons f rest)
  obtain r fs' where s: "save_tensor penv (task_tensor f) (task_path f) fs = (r, fs')"
    by (cases "save_tensor penv (task_tensor f) (task_path f) fs")
  then have r: "r = Inr ()"
    using save_tensor_returns [of penv "task_tensor f" "task_path f" fs] by simp
  obtain rs fs'' where p: "run_pool penv rest fs' = (rs, fs'')"
    by (cases "run_pool penv rest fs'")
  from Cons.IH [of fs'] p have "rs = map (\<lambda>f. (fid f, Inr ())) rest"
    by simp
  with s r p show ?case by simp
qed

lemma filter_key_unique:
  "distinct (map fst xs) \<Longrightarrow> (k, v) \<in> set xs \<Longrightarrow> filter (\<lambda>(i, r). i = k) xs = [(k, v)]"
proof (induction xs)
  case Nil
  then show ?case by simp
next
  case (Cons x xs)
  show ?case
  proof (cases "x = (k, v)")
    case True
    with Cons.prems(1) have "\<forall>y\<in>set xs. fst y \<noteq> k"
      by auto
    then have "filter (\<lambda>(i, r). i = k) xs = []"
      by (auto simp: filter_empty_conv)
    with True show ?thesis by simp
  next
    case False
    with Cons.prems have in_rest: "(k, v) \<in> set xs" and d: "distinct (map fst xs)"
      by auto
    from Cons.prems(1) in_rest have "fst x \<noteq> k"
      by (auto simp: image_iff)
    with Cons.IH [OF d in_rest] show ?thesis
      by (cases x) simp
  qed
qed

lemma collected_results:
  assumes "distinct (map fid q)"
  shows "concat (map (future_result (map (\<lambda>f. (fid f, Inr () :: py_exception + unit)) (pool_order finish_time q)))
           (as_completed yield_place q))
     = map (\<lambda>f. (fid f, Inr () :: py_exception + unit)) (as_completed yield_place q)"
proof -
  let ?results = "map (\<lambda>f. (fid f, Inr () :: py_exception + unit)) (pool_order finish_time q)"
  have "mset (map fid (pool_order finish_time q)) = mset (map fid q)"
    by (simp add: pool_order_def)
  then have "distinct (map fid (pool_order finish_time q)) \<longleftrightarrow> distinct (map fid q)"
    by (rule mset_eq_imp_distinct_iff)
  with assms have "distinct (map fid (pool_order finish_time q))"
    by simp
  then have d: "distinct (map fst ?results)"
    by (simp add: comp_def)
  have each: "future_result ?results f = [(fid f, Inr () :: py_exception + unit)]" if "f \<in> set q" for f
  proof -
    from that have "f \<in> set (pool_order finish_time q)"
      by (simp add: pool_order_def)
    then have "(fid f, Inr () :: py_exception + unit) \<in> set ?results"
      by auto
    with d show ?thesis
      unfolding future_result_def by (rule filter_key_unique)
  qed
  have "map (future_result ?results) (as_completed yield_place q)
      = map (\<lambda>f. [(fid f, Inr () :: py_exception + unit)]) (as_completed yield_place q)"
    using each by (simp add: as_completed_def)
  then have "concat (map (future_result ?results) (as_completed yield_place q))
      = concat (map (\<lambda>f. [(fid f, Inr () :: py_exception + unit)]) (as_completed yield_place q))"
    by (rule arg_cong)
  then show ?thesis
    by (simp only: concat_map_singleton)
qed


lemma result_events:
  "map (\<lambda>(i, r). ResultEv i) results = map ResultEv (map fst results)"
  by (induction results) auto

text \<open>
  Claim C6. In every run of the driver each encoded latent is submitted to the pool
  exactly once: the queue holds one future per encode, numbered in order and carrying
  that latent and its output path, and the trace has one submission right after each
  encode. When the input is exhausted, the driver collects the result of every future of
  the queue exactly once, in the order \<open>futures.as_completed\<close> yields them, after the
  last submission and before the final barrier; no collected result raises. Only an exception of the encoder
  ends a run early, and then every latent encoded before it has been submitted. When
  every encode succeeds the run reaches the final barrier.
\<close>

theorem every_latent_submitted_once_and_drained:
  fixes encode :: "'img tensor \<Rightarrow> py_exception + 'lat"
    and penv :: "('lat, 'file) persist_env"
    and finish_time :: "nat \<Rightarrow> nat"
    and yield_place :: "nat \<Rightarrow> nat"
    and data_loader :: "'img sample list"
    and fs :: "string \<Rightarrow> 'file option"
  defines "r \<equiv> main encode penv finish_time yield_place data_loader fs"
    and "q \<equiv> task_queue (final (main encode penv finish_time yield_place data_loader fs))"
  shows "map fid q = [0..<length q]
    \<and> map (\<lambda>f. (Inr (task_tensor f), task_path f)) q
        = map (\<lambda>(v, p). (encode v, p)) (take (length q) (work_items data_loader))
    \<and> (raised r = None \<longrightarrow>
          length q = length (work_items data_loader)
          \<and> trace (final r)
              = [BarrierEv] @ encode_submit_events q
                @ map ResultEv (map fid (as_completed yield_place q)) @ [BarrierEv]
          \<and> mset (map fid (as_completed yield_place q)) = mset [0..<length q])
    \<and> (\<forall>x. raised r = Some x \<longrightarrow>
          length q < length (work_items data_loader)
          \<and> encode (fst (work_items data_loader ! length q)) = Inl x
          \<and> trace (final r) = [BarrierEv] @ encode_submit_events q)
    \<and> (list_all (\<lambda>item. \<exists>lat. encode (fst item) = Inr lat) (work_items data_loader)
          \<longrightarrow> raised r = None)"
proof -
  define st0 :: "'lat driver" where "st0 = \<lparr>task_queue = [], trace = [BarrierEv]\<rparr>"
  obtain e st where enc: "encode_all encode data_loader st0 = (e, st)"
    by (cases "encode_all encode data_loader st0")
  then have "encode_sample encode (work_items data_loader) st0 = (e, st)"
    by (simp add: encode_all_flat)
  from encode_sample_spec [OF this] have
    ids: "map fid (task_queue st) = [0..<length (task_queue st)]"
    and tr: "trace st = [BarrierEv] @ encode_submit_events (task_queue st)"
    and len: "length (task_queue st) \<le> length (work_items data_loader)"
    and lat: "map (\<lambda>f. (Inr (task_tensor f), task_path f)) (task_queue st)
         = map (\<lambda>(v, p). (encode v, p))
             (take (length (task_queue st)) (work_items data_loader))"
    and complete: "e = None \<longrightarrow> length (task_queue st) = length (work_items data_loader)"
    and failed: "\<forall>x. e = Some x \<longrightarrow> length (task_queue st) < length (work_items data_loader)
            \<and> encode (fst (work_items data_loader ! length (task_queue st))) = Inl x"
    by (auto simp: st0_def)
  obtain results fs' where
    pool: "run_pool penv (pool_order finish_time (task_queue st)) fs = (results, fs')"
    by (cases "run_pool penv (pool_order finish_time (task_queue st)) fs")
  have results: "results = map (\<lambda>f. (fid f, Inr ())) (pool_order finish_time (task_queue st))"
    using run_pool_all_return [of penv "pool_order finish_time (task_queue st)" fs] pool
    by simp
  have "distinct (map fid (task_queue st))"
    by (simp only: ids distinct_upt)
  then have collected:
    "concat (map (future_result results) (as_completed yield_place (task_queue st)))
      = map (\<lambda>f. (fid f, Inr ())) (as_completed yield_place (task_queue st))"
    unfolding results by (rule collected_results)
  have ok: "list_all (\<lambda>(i, r). r = Inr ())
      (map (\<lambda>f. (fid f, Inr ())) (as_completed yield_place (task_queue st)))"
    by (simp add: list_all_iff)
  have drained:
    "drain (concat (map (future_result results) (as_completed yield_place (task_queue st)))) st
      = (None, st\<lparr>trace := trace st
           @ map ResultEv (map fid (as_completed yield_place (task_queue st)))\<rparr>)"
    unfolding collected using drain_all [OF ok, of st] by (simp add: comp_def)
  have raised_r: "raised r = e"
    unfolding r_def main_def Let_def st0_def [symmetric] enc
    by (cases e) (simp_all add: pool drained)
  have q_st: "q = task_queue st"
    unfolding q_def main_def Let_def st0_def [symmetric] enc
    by (cases e) (simp_all add: pool drained)
  have trace_done: "e = None \<longrightarrow> trace (final r)
      = [BarrierEv] @ encode_submit_events q
        @ map ResultEv (map fid (as_completed yield_place q)) @ [BarrierEv]"
    unfolding r_def main_def Let_def st0_def [symmetric] enc q_st
    by (simp add: pool drained tr)
  have trace_failed: "\<forall>x. e = Some x \<longrightarrow> trace (final r) = [BarrierEv] @ encode_submit_events q"
    unfolding r_def main_def Let_def st0_def [symmetric] enc q_st
    by (simp add: tr)
  have "mset (map fid (as_completed yield_place q)) = image_mset fid (mset q)"
    by (simp add: mset_as_completed)
  also have "\<dots> = mset (map fid q)"
    by simp
  finally have once: "mset (map fid (as_completed yield_place q)) = mset [0..<length q]"
    using ids unfolding q_st by (simp only:)
  have all_ok: "list_all (\<lambda>item. \<exists>lat. encode (fst item) = Inr lat) (work_items data_loader)
          \<longrightarrow> e = None"
  proof
    assume a: "list_all (\<lambda>item. \<exists>lat. encode (fst item) = Inr lat) (work_items data_loader)"
    show "e = None"
    proof (cases e)
      case None
      then show ?thesis .
    next
      case (Some x)
      with failed have "length (task_queue st) < length (work_items data_loader)"
        and "encode (fst (work_items data_loader ! length (task_queue st))) = Inl x"
        by simp_all
      with a show ?thesis
        by (auto simp: list_all_length)
    qed
  qed
  from ids lat complete failed trace_done trace_failed once all_ok show ?thesis
    unfolding raised_r q_st [symmetric] by blast
qed


theorem every_latent_submitted_once_and_drained_witness:
  "list_all (\<lambda>item. \<exists>lat. example_encode (fst item) = Inr lat) (work_items example_loader)
   \<and> raised (main example_encode example_penv (\<lambda>i. i) (\<lambda>i. 2 - i) example_loader Map.empty) = None
   \<and> trace (final (main example_encode example_penv (\<lambda>i. i) (\<lambda>i. 2 - i) example_loader Map.empty))
       = [BarrierEv,
          EncodeEv 1, SubmitEv \<lparr>fid = 0, task_tensor = 1, task_path = ''a.pt''\<rparr>,
          EncodeEv 9, SubmitEv \<lparr>fid = 1, task_tensor = 9, task_path = ''b.pt''\<rparr>,
          EncodeEv 17, SubmitEv \<lparr>fid = 2, task_tensor = 17, task_path = ''c.pt''\<rparr>,
          ResultEv 2, ResultEv 1, ResultEv 0, BarrierEv]"
proof -
  have ok: "list_all (\<lambda>item. \<exists>lat. example_encode (fst item) = Inr lat)
      (work_items example_loader)"
    by (simp add: work_items_def example_loader_def example_encode_def example_input_def)
  from every_latent_submitted_once_and_drained
    [of example_encode example_penv "\<lambda>i. i" "\<lambda>i. 2 - i" example_loader Map.empty] ok
  have no_raise: "raised (main example_encode example_penv (\<lambda>i. i) (\<lambda>i. 2 - i) example_loader Map.empty)
      = None"
    by blast
  have tr: "trace (final (main example_encode example_penv (\<lambda>i. i) (\<lambda>i. 2 - i) example_loader Map.empty))
       = [BarrierEv,
          EncodeEv 1, SubmitEv \<lparr>fid = 0, task_tensor = 1, task_path = ''a.pt''\<rparr>,
          EncodeEv 9, SubmitEv \<lparr>fid = 1, task_tensor = 9, task_path = ''b.pt''\<rparr>,
          EncodeEv 17, SubmitEv \<lparr>fid = 2, task_tensor = 17, task_path = ''c.pt''\<rparr>,
          ResultEv 2, ResultEv 1, ResultEv 0, BarrierEv]"
    by code_simp
  from ok no_raise tr show ?thesis
    by blast
qed

section \<open>The shards of the manifest\<close>

lemma ceil_div_mult_ge: "0 < b \<Longrightarrow> a \<le> ceil_div a b * b"
proof -
  assume b: "0 < b"
  have "(a + b - 1) div b * b + (a + b - 1) mod b = a + b - 1"
    by simp
  moreover have "(a + b - 1) mod b < b"
    using b by simp
  ultimately show ?thesis
    unfolding ceil_div_def by linarith
qed

lemma ceil_div_dvd: "0 < b \<Longrightarrow> a mod b = 0 \<Longrightarrow> ceil_div a b * b = a"
proof -
  assume b: "0 < b" and d: "a mod b = 0"
  then obtain k where a: "a = k * b"
    by (metis mod_eq_0_iff_dvd dvd_def mult.commute)
  have "k * b + b - 1 = k * b + (b - 1)"
    using b by simp
  moreover have "(k * b + (b - 1)) div b = k + (b - 1) div b"
    using b by (simp only: div_mult_self3)
  moreover have "(b - 1) div b = 0"
    using b by simp
  ultimately have "(k * b + b - 1) div b = k"
    by simp
  then show ?thesis
    by (simp add: ceil_div_def a)
qed


lemma ceil_div_zero: "0 < b \<Longrightarrow> ceil_div 0 b = 0"
  by (simp add: ceil_div_def)

lemma ceil_div_not_dvd: "0 < b \<Longrightarrow> a mod b \<noteq> 0 \<Longrightarrow> ceil_div a b = Suc (a div b)"
proof -
  assume b: "0 < b" and d: "a mod b \<noteq> 0"
  have a: "a = a div b * b + a mod b"
    by simp
  have "a + b - 1 = Suc (a div b) * b + (a mod b - 1)"
    using d b by (subst a) simp
  moreover have "a mod b - 1 < b"
    using b by (simp add: less_imp_diff_less)
  moreover have "(Suc (a div b) * b + (a mod b - 1)) div b = Suc (a div b) + (a mod b - 1) div b"
    using b by (simp only: div_mult_self3)
  ultimately have "(a + b - 1) div b = Suc (a div b)"
    by simp
  then show ?thesis
    by (simp add: ceil_div_def)
qed

lemma nth_concat_replicate_upt:
  "q < k * M \<Longrightarrow> concat (replicate k [0..<M]) ! q = q mod M"
proof (induction k arbitrary: q)
  case 0
  then show ?case by simp
next
  case (Suc k)
  show ?case
  proof (cases "q < M")
    case True
    then show ?thesis by (simp add: nth_append)
  next
    case False
    then have "q - M < k * M" using Suc.prems by simp
    from Suc.IH [OF this] False show ?thesis
      by (simp add: nth_append le_mod_geq)
  qed
qed

lemma length_concat_replicate: "length (concat (replicate k xs)) = k * length xs"
  by (induction k) simp_all

lemma length_padded_indices:
  assumes "0 < W"
  shows "length (padded_indices M W) = ceil_div M W * W"
proof -
  let ?T = "ceil_div M W * W"
  have ge: "M \<le> ?T" using assms by (rule ceil_div_mult_ge)
  show ?thesis
  proof (cases "?T - M \<le> M")
    case True
    then show ?thesis
      using ge by (simp add: padded_indices_def Let_def)
  next
    case False
    then have M: "0 < M"
      using assms by (cases "M = 0") (simp_all add: ceil_div_zero)
    have "?T - M \<le> ceil_div (?T - M) M * M"
      using M by (rule ceil_div_mult_ge)
    then show ?thesis
      using False ge
      by (simp add: padded_indices_def Let_def length_concat_replicate min_absorb2)
  qed
qed

lemma nth_padded_indices:
  assumes "0 < W" and "p < ceil_div M W * W"
  shows "padded_indices M W ! p = p mod M"
proof -
  let ?T = "ceil_div M W * W"
  show ?thesis
  proof (cases "p < M")
    case True
    then show ?thesis
      by (simp add: padded_indices_def Let_def nth_append)
  next
    case beyond: False
    then have pm: "p - M < ?T - M" using assms(2) by simp
    show ?thesis
    proof (cases "?T - M \<le> M")
      case True
      with pm have "p - M < M" by simp
      then have "p mod M = p - M"
        using beyond by (simp add: le_mod_geq)
      then show ?thesis
        using True beyond pm by (simp add: padded_indices_def Let_def nth_append)
    next
      case False
      then have M: "0 < M"
        using assms(1) by (cases "M = 0") (simp_all add: ceil_div_zero)
      have "?T - M \<le> ceil_div (?T - M) M * M"
        using M by (rule ceil_div_mult_ge)
      with pm have "p - M < ceil_div (?T - M) M * M" by simp
      then have "concat (replicate (ceil_div (?T - M) M) [0..<M]) ! (p - M) = (p - M) mod M"
        by (rule nth_concat_replicate_upt)
      moreover have "(p - M) mod M = p mod M"
        using beyond by (simp add: le_mod_geq)
      ultimately show ?thesis
        using False beyond pm
        by (simp add: padded_indices_def Let_def nth_append length_concat_replicate)
    qed
  qed
qed


lemma stride_positions:
  assumes "0 < W" and "r < W"
  shows "filter (\<lambda>i. (i - r) mod W = 0) [r..<n * W] = map (\<lambda>j. r + j * W) [0..<n]"
proof (rule sorted_distinct_set_unique)
  show "sorted (filter (\<lambda>i. (i - r) mod W = 0) [r..<n * W])"
    by (rule sorted_wrt_filter) simp
  show "distinct (filter (\<lambda>i. (i - r) mod W = 0) [r..<n * W])"
    by simp
  have mono: "strict_mono (\<lambda>j. r + j * W)"
    using assms(1) by (simp add: strict_mono_def)
  show "sorted (map (\<lambda>j. r + j * W) [0..<n])"
    using assms(1) by (simp add: sorted_map sorted_wrt_iff_nth_less)
  show "distinct (map (\<lambda>j. r + j * W) [0..<n])"
    using assms(1) by (simp add: distinct_map inj_on_def)
  show "set (filter (\<lambda>i. (i - r) mod W = 0) [r..<n * W]) = set (map (\<lambda>j. r + j * W) [0..<n])"
  proof (intro set_eqI iffI)
    fix i
    assume "i \<in> set (filter (\<lambda>i. (i - r) mod W = 0) [r..<n * W])"
    then have lo: "r \<le> i" and hi: "i < n * W" and m: "(i - r) mod W = 0"
      by simp_all
    have i: "i = r + (i - r) div W * W"
      using lo m by (metis add.right_neutral div_mult_mod_eq le_add_diff_inverse)
    have "(i - r) div W * W < n * W"
      using hi i by linarith
    then have "(i - r) div W < n"
      by simp
    with i show "i \<in> set (map (\<lambda>j. r + j * W) [0..<n])"
      by (auto intro: image_eqI [where x = "(i - r) div W"])
  next
    fix i
    assume "i \<in> set (map (\<lambda>j. r + j * W) [0..<n])"
    then obtain j where j: "j < n" and i: "i = r + j * W"
      by auto
    have "Suc j * W \<le> n * W"
      using j by (simp only: mult_le_mono1 Suc_leI)
    then have "r + j * W < n * W"
      using assms(2) by simp
    then show "i \<in> set (filter (\<lambda>i. (i - r) mod W = 0) [r..<n * W])"
      using i by simp
  qed
qed

lemma sampler_closed_form:
  assumes "0 < W" and "r < W"
  shows "distributed_sampler M (int W) (int r)
     = Inr (map (\<lambda>j. (r + j * W) mod M) [0..<ceil_div M W])"
proof -
  let ?n = "ceil_div M W"
  have len: "length (padded_indices M W) = ?n * W"
    using assms(1) by (rule length_padded_indices)
  have "slice_step (padded_indices M W) r (?n * W) W
      = map (\<lambda>i. padded_indices M W ! i) (map (\<lambda>j. r + j * W) [0..<?n])"
    unfolding slice_step_def len using stride_positions [OF assms, of ?n] by simp
  also have "\<dots> = map (\<lambda>j. (r + j * W) mod M) [0..<?n]"
  proof -
    have "padded_indices M W ! (r + j * W) = (r + j * W) mod M" if "j < ?n" for j
    proof -
      have "Suc j * W \<le> ?n * W"
        using that by (simp only: mult_le_mono1 Suc_leI)
      then have "r + j * W < ?n * W"
        using assms(2) by simp
      with assms(1) show ?thesis
        by (rule nth_padded_indices)
    qed
    then show ?thesis by simp
  qed
  finally show ?thesis
    using assms by (simp add: distributed_sampler_def Let_def)
qed


lemma shard_closed_form:
  assumes "0 < W" and "r < W"
  shows "shard M W r = (\<lambda>j. (r + j * W) mod M) ` {..<ceil_div M W}"
  using sampler_closed_form [OF assms, of M] by (simp add: shard_def lessThan_atLeast0)

lemma in_shard:
  assumes "0 < W" and "r < W" and "j < ceil_div M W"
  shows "(r + j * W) mod M \<in> shard M W r"
  using assms by (simp add: shard_closed_form)

lemma shards_cover:
  assumes "0 < W"
  shows "(\<Union>r<W. shard M W r) = {0..<M}"
proof (intro set_eqI iffI)
  fix x
  assume "x \<in> (\<Union>r<W. shard M W r)"
  then obtain r j where "r < W" and j: "j < ceil_div M W" and x: "x = (r + j * W) mod M"
    using assms by (auto simp: shard_closed_form)
  from j have "0 < M"
    using assms by (cases "M = 0") (simp_all add: ceil_div_zero)
  then show "x \<in> {0..<M}"
    by (simp add: x)
next
  fix x
  assume "x \<in> {0..<M}"
  then have x: "x < M" by simp
  have "x < ceil_div M W * W"
    using x ceil_div_mult_ge [OF assms, of M] by simp
  then have j: "x div W < ceil_div M W"
    using assms by (simp add: div_less_iff_less_mult)
  have r: "x mod W < W"
    using assms by simp
  have "(x mod W + x div W * W) mod M = x"
    using x by simp
  with in_shard [OF assms r j] have "x \<in> shard M W (x mod W)"
    by simp
  with r show "x \<in> (\<Union>r<W. shard M W r)"
    by blast
qed

lemma shards_disjoint:
  assumes "0 < W" and "M mod W = 0" and "r < W" and "r' < W" and "r \<noteq> r'"
  shows "shard M W r \<inter> shard M W r' = {}"
proof (rule ccontr)
  assume "shard M W r \<inter> shard M W r' \<noteq> {}"
  then obtain x where "x \<in> shard M W r" and "x \<in> shard M W r'"
    by blast
  then obtain j j' where j: "j < ceil_div M W" and x: "x = (r + j * W) mod M"
    and j': "j' < ceil_div M W" and x': "x = (r' + j' * W) mod M"
    using assms by (auto simp: shard_closed_form)
  have total: "ceil_div M W * W = M"
    using assms(1,2) by (rule ceil_div_dvd)
  have "Suc j * W \<le> ceil_div M W * W"
    using j by (simp only: mult_le_mono1 Suc_leI)
  then have lt: "r + j * W < M"
    using assms(3) total by simp
  have "Suc j' * W \<le> ceil_div M W * W"
    using j' by (simp only: mult_le_mono1 Suc_leI)
  then have lt': "r' + j' * W < M"
    using assms(4) total by simp
  from x x' lt lt' have "r + j * W = r' + j' * W"
    by simp
  then have "(r + j * W) mod W = (r' + j' * W) mod W"
    by simp
  then have "r = r'"
    using assms(3,4) by simp
  with assms(5) show False by simp
qed

lemma sampler_distinct:
  assumes "0 < W" and "M mod W = 0" and "r < W"
  shows "distinct (map (\<lambda>j. (r + j * W) mod M) [0..<ceil_div M W])"
proof -
  have total: "ceil_div M W * W = M"
    using assms(1,2) by (rule ceil_div_dvd)
  have "inj_on (\<lambda>j. (r + j * W) mod M) {0..<ceil_div M W}"
  proof (rule inj_onI)
    fix j j'
    assume j: "j \<in> {0..<ceil_div M W}" and j': "j' \<in> {0..<ceil_div M W}"
      and eq: "(r + j * W) mod M = (r + j' * W) mod M"
    have "Suc j * W \<le> ceil_div M W * W"
      using j by (simp only: mult_le_mono1 Suc_leI atLeastLessThan_iff)
    then have lt: "r + j * W < M"
      using assms(3) total by simp
    have "Suc j' * W \<le> ceil_div M W * W"
      using j' by (simp only: mult_le_mono1 Suc_leI atLeastLessThan_iff)
    then have lt': "r + j' * W < M"
      using assms(3) total by simp
    from eq lt lt' have "j * W = j' * W"
      by simp
    then show "j = j'"
      using assms(1) by simp
  qed
  then show ?thesis
    by (simp add: distinct_map)
qed

lemma shards_overlap:
  assumes "0 < W" and "M mod W \<noteq> 0"
  shows "0 \<in> shard M W 0 \<inter> shard M W (M mod W)"
proof -
  have M: "0 < M"
    using assms(2) by (cases "M = 0") simp_all
  have n: "ceil_div M W = Suc (M div W)"
    using assms by (rule ceil_div_not_dvd)
  have "(0 + 0 * W) mod M \<in> shard M W 0"
    using assms(1) by (intro in_shard) (simp_all add: n)
  moreover have "(M mod W + M div W * W) mod M \<in> shard M W (M mod W)"
    using assms(1) by (intro in_shard) (simp_all add: n)
  ultimately show ?thesis
    by simp
qed

text \<open>
  Claim C1, amended. For every manifest of size \<open>M\<close> and every world size
  \<open>W \<ge> 1\<close> the assignment is a function of \<open>(M, W, rank)\<close>: the rank \<open>r\<close> gets
  the \<open>ceil(M / W)\<close> indices \<open>(r + j * W) mod M\<close>. The union of the shards over the
  ranks \<open>0..W-1\<close> is the full manifest, so no entry is left out. When \<open>W\<close> divides
  \<open>M\<close> the shards are pairwise disjoint and no rank gets an entry twice: every entry is
  assigned exactly once. When \<open>W\<close> does not divide \<open>M\<close> the padding repeats entries:
  the entry 0 is in the shard of rank 0 and in the shard of rank \<open>M mod W\<close>.
\<close>

theorem sampler_covers_manifest:
  assumes "1 \<le> W"
  shows "(\<forall>r<W. \<exists>indices. distributed_sampler M (int W) (int r) = Inr indices
            \<and> length indices = ceil_div M W
            \<and> indices = map (\<lambda>j. (r + j * W) mod M) [0..<ceil_div M W])
    \<and> (\<Union>r<W. shard M W r) = {0..<M}
    \<and> (M mod W = 0 \<longrightarrow>
          (\<forall>r<W. \<forall>r'<W. r \<noteq> r' \<longrightarrow> shard M W r \<inter> shard M W r' = {})
          \<and> (\<forall>r<W. \<forall>indices. distributed_sampler M (int W) (int r) = Inr indices
                \<longrightarrow> distinct indices))
    \<and> (M mod W \<noteq> 0 \<longrightarrow>
          M mod W < W \<and> 0 \<in> shard M W 0 \<inter> shard M W (M mod W))"
proof -
  have W: "0 < W" using assms by simp
  have each: "\<forall>r<W. \<exists>indices. distributed_sampler M (int W) (int r) = Inr indices
            \<and> length indices = ceil_div M W
            \<and> indices = map (\<lambda>j. (r + j * W) mod M) [0..<ceil_div M W]"
    using sampler_closed_form [OF W, of _ M] by simp
  have cover: "(\<Union>r<W. shard M W r) = {0..<M}"
    using W by (rule shards_cover)
  have disjoint: "M mod W = 0 \<longrightarrow>
          (\<forall>r<W. \<forall>r'<W. r \<noteq> r' \<longrightarrow> shard M W r \<inter> shard M W r' = {})"
    by (intro impI allI) (rule shards_disjoint [OF W])
  have once: "M mod W = 0 \<longrightarrow>
          (\<forall>r<W. \<forall>indices. distributed_sampler M (int W) (int r) = Inr indices
                \<longrightarrow> distinct indices)"
    using sampler_closed_form [OF W, of _ M] sampler_distinct [OF W] by auto
  have overlap: "M mod W \<noteq> 0 \<longrightarrow>
          M mod W < W \<and> 0 \<in> shard M W 0 \<inter> shard M W (M mod W)"
    using shards_overlap [OF W] W by simp
  have when_divides: "M mod W = 0 \<longrightarrow>
          (\<forall>r<W. \<forall>r'<W. r \<noteq> r' \<longrightarrow> shard M W r \<inter> shard M W r' = {})
          \<and> (\<forall>r<W. \<forall>indices. distributed_sampler M (int W) (int r) = Inr indices
                \<longrightarrow> distinct indices)"
  proof (rule impI, rule conjI)
    assume d: "M mod W = 0"
    from disjoint d
    show "\<forall>r<W. \<forall>r'<W. r \<noteq> r' \<longrightarrow> shard M W r \<inter> shard M W r' = {}"
      by (rule mp)
    from once d
    show "\<forall>r<W. \<forall>indices. distributed_sampler M (int W) (int r) = Inr indices
                \<longrightarrow> distinct indices"
      by (rule mp)
  qed
  show ?thesis
    by (intro conjI) (rule each, rule cover, rule when_divides, rule overlap)
qed

theorem sampler_covers_manifest_witness:
  "(1 :: nat) \<le> 2
   \<and> distributed_sampler 4 2 0 = Inr [0, 2] \<and> distributed_sampler 4 2 1 = Inr [1, 3]
   \<and> shard 4 2 0 \<union> shard 4 2 1 = {0..<4}
   \<and> shard 4 2 0 \<inter> shard 4 2 1 = {}"
proof -
  have W: "(1 :: nat) \<le> 2"
    by simp
  have d: "(4 :: nat) mod 2 = 0"
    by simp
  have runs: "distributed_sampler 4 2 0 = Inr [0, 2] \<and> distributed_sampler 4 2 1 = Inr [1, 3]"
    by code_simp
  have u: "(\<Union>r<(2 :: nat). shard 4 2 r) = shard 4 2 0 \<union> shard 4 2 1"
    by (auto simp: less_2_cases_iff)
  from sampler_covers_manifest [OF W, of 4] d
  have "(\<Union>r<(2 :: nat). shard 4 2 r) = {0..<4}"
    and "shard 4 2 0 \<inter> shard 4 2 1 = {}"
    by auto
  with W runs u show ?thesis
    by simp
qed

text \<open>
  The claim as stated, with pairwise disjoint shards for every \<open>M\<close> and \<open>W\<close>, fails
  when \<open>W\<close> does not divide \<open>M\<close>. With three entries and two ranks the padded list is
  \<open>[0, 1, 2, 0]\<close>: rank 0 gets the entries 0 and 2, rank 1 gets the entries 1 and 0.
\<close>

theorem sampler_shards_overlap_counterexample:
  "distributed_sampler 3 2 0 = Inr [0, 2] \<and> distributed_sampler 3 2 1 = Inr [1, 0]
   \<and> 0 \<in> shard 3 2 0 \<inter> shard 3 2 1"
proof -
  have runs: "distributed_sampler 3 2 0 = Inr [0, 2] \<and> distributed_sampler 3 2 1 = Inr [1, 0]"
    by code_simp
  then have "0 \<in> shard 3 2 0 \<inter> shard 3 2 1"
    using runs by (simp add: shard_def)
  with runs show ?thesis
    by blast
qed

end
